theory Spec2Isabelle
  imports Complex_Main "HOL-Library.Char_ord" "HOL-Library.List_Lexorder"
    "HOL-Library.Product_Lexorder"
begin

section \<open>Dates and times\<close>

text \<open>
  A Python \<open>datetime\<close> (naive, or aware in UTC) is modelled by the number of microseconds
  since 0001-01-01T00:00:00, the resolution and the origin of the \<open>datetime\<close> module. The
  type is bounded: the last value is 9999-12-31T23:59:59.999999, and an addition that leaves
  the range raises \<open>OverflowError\<close>. A \<open>timedelta\<close> is a number of microseconds.
\<close>

type_synonym datetime = int
type_synonym timedelta = int

datatype py_error = OverflowError | TimestampOutOfRange

definition us_per_second :: int where
  "us_per_second = 1000000"

definition us_per_day :: int where
  "us_per_day = 86400 * us_per_second"

definition datetime_max :: datetime where
  "datetime_max = 3652059 * us_per_day - 1"

definition valid_datetime :: "datetime \<Rightarrow> bool" where
  "valid_datetime d = (0 \<le> d \<and> d \<le> datetime_max)"

definition timedelta_minutes :: "int \<Rightarrow> timedelta" where
  "timedelta_minutes m = m * 60 * us_per_second"

definition timedelta_seconds :: "int \<Rightarrow> timedelta" where
  "timedelta_seconds s = s * us_per_second"

definition datetime_add :: "datetime \<Rightarrow> timedelta \<Rightarrow> py_error + datetime" where
  "datetime_add d t =
     (if 0 \<le> d + t \<and> d + t \<le> datetime_max then Inr (d + t) else Inl OverflowError)"

text \<open>
  \<open>datetime.fromtimestamp(t, timezone.utc)\<close> for an integer Unix time \<open>t\<close> (the candle
  time of the exchange API is an integer number of seconds). Day 719163 of the proleptic
  Gregorian calendar is 1970-01-01. A time outside the years 1 to 9999 raises (ValueError,
  OverflowError or OSError, by platform), here the one error \<open>TimestampOutOfRange\<close>.
\<close>

definition fromtimestamp_utc :: "int \<Rightarrow> py_error + datetime" where
  "fromtimestamp_utc t =
     (if - 62135596800 \<le> t \<and> t \<le> 253402300799
      then Inr ((t + 62135596800) * us_per_second)
      else Inl TimestampOutOfRange)"

subsection \<open>ISO 8601 text\<close>

definition digit :: "int \<Rightarrow> char" where
  "digit n = char_of (48 + n mod 10)"

fun zero_pad :: "nat \<Rightarrow> int \<Rightarrow> string" where
  "zero_pad 0 n = []"
| "zero_pad (Suc k) n = zero_pad k (n div 10) @ [digit n]"

definition days_before_month :: "int \<Rightarrow> int" where
  "days_before_month m =
     [0, 0, 31, 59, 90, 120, 151, 181, 212, 243, 273, 304, 334] ! nat m"

definition days_in_month :: "int \<Rightarrow> int" where
  "days_in_month m = [0, 31, 28, 31, 30, 31, 30, 31, 31, 30, 31, 30, 31] ! nat m"

text \<open>
  The year, month and day of a proleptic Gregorian ordinal (day 1 is 0001-01-01), by the
  cycles of 400, 100, 4 and 1 years, as the \<open>datetime\<close> module computes them.
\<close>

definition ord2ymd :: "int \<Rightarrow> int \<times> int \<times> int" where
  "ord2ymd ordinal =
     (let n = ordinal - 1;
          n400 = n div 146097; n = n mod 146097;
          n100 = n div 36524; n = n mod 36524;
          n4 = n div 1461; n = n mod 1461;
          n1 = n div 365; n = n mod 365;
          year = n400 * 400 + 1 + n100 * 100 + n4 * 4 + n1
      in if n1 = 4 \<or> n100 = 4 then (year - 1, 12, 31)
         else
           let leapyear = (n1 = 3 \<and> (n4 \<noteq> 24 \<or> n100 = 3));
               month = (n + 50) div 32;
               preceding = days_before_month month + (if 2 < month \<and> leapyear then 1 else 0)
           in if n < preceding
              then let month' = month - 1;
                       preceding' = preceding
                         - (days_in_month month' + (if month' = 2 \<and> leapyear then 1 else 0))
                   in (year, month', n - preceding' + 1)
              else (year, month, n - preceding + 1))"

text \<open>
  \<open>datetime.isoformat()\<close> of a naive datetime: \<open>YYYY-MM-DDTHH:MM:SS\<close>, followed by
  \<open>.ffffff\<close> when the microsecond is not zero.
\<close>

definition isoformat :: "datetime \<Rightarrow> string" where
  "isoformat d =
     (let (y, m, dd) = ord2ymd (d div us_per_day + 1);
          s = (d mod us_per_day) div us_per_second;
          us = d mod us_per_second
      in zero_pad 4 y @ ''-'' @ zero_pad 2 m @ ''-'' @ zero_pad 2 dd @ ''T''
         @ zero_pad 2 (s div 3600) @ '':'' @ zero_pad 2 (s mod 3600 div 60) @ '':''
         @ zero_pad 2 (s mod 60)
         @ (if us = 0 then [] else ''.'' @ zero_pad 6 us))"

text \<open>The same for a datetime aware in UTC: the offset \<open>+00:00\<close> follows.\<close>

definition isoformat_utc :: "datetime \<Rightarrow> string" where
  "isoformat_utc d = isoformat d @ ''+00:00''"

section \<open>The fetcher\<close>

text \<open>
  The query parameters of one request, the dictionary \<open>params\<close> of \<open>fetch_candles\<close>.
\<close>

record params =
  start_param :: string
  end_param :: string
  granularity_param :: int

text \<open>
  What \<open>requests.get\<close> returns: the status code and, for a status of 200, the decoded JSON
  body, a list of candles. The exchange is a function from the URL and the parameters to the
  response. Every request of one call has another \<open>start\<close>, so the function can give any
  sequence of responses. (A request that raises, for want of a connection, ends the call; the
  model covers the requests that are answered.)
\<close>

record 'c response =
  status_code :: int
  json :: "'c list"

type_synonym 'c http = "string \<Rightarrow> params \<Rightarrow> 'c response"

text \<open>
  The effects of \<open>fetch_candles\<close> on the world, in the order they happen: the HTTP GET
  requests and the calls of \<open>time.sleep\<close> with their argument in seconds. (Its \<open>print\<close>
  calls are left out.)
\<close>

datatype event = Get string params | Sleep rat

definition product_url :: "string \<Rightarrow> string" where
  "product_url product_id =
     ''https://api.exchange.coinbase.com/products/'' @ product_id @ ''/candles''"

definition delta :: timedelta where
  "delta = timedelta_minutes 300"

text \<open>
  The body of the \<open>while\<close> loop, for the response of its request: the candles collected
  so far, extended by the body of a response of status 200 that is not empty.
\<close>

definition extend_candles :: "'c list \<Rightarrow> 'c response \<Rightarrow> 'c list" where
  "extend_candles all_candles response =
     (if status_code response = 200
      then (if json response \<noteq> [] then all_candles @ json response else all_candles)
      else all_candles)"

definition request_params :: "datetime \<Rightarrow> datetime \<Rightarrow> int \<Rightarrow> params" where
  "request_params current_start current_end granularity =
     \<lparr>start_param = isoformat current_start, end_param = isoformat current_end,
      granularity_param = granularity\<rparr>"

text \<open>
  The loop of \<open>fetch_candles\<close>, from the state \<open>current_start\<close>, \<open>all_candles\<close> and the
  events so far. It returns the events of the whole call and either the list the function
  returns or the exception that ended it.
\<close>

function fetch_loop ::
  "'c http \<Rightarrow> string \<Rightarrow> int \<Rightarrow> datetime \<Rightarrow> datetime \<Rightarrow> 'c list \<Rightarrow> event list
   \<Rightarrow> event list \<times> (py_error + 'c list)" where
  "fetch_loop http url granularity end current_start all_candles trace =
     (if current_start < end then
        (case datetime_add current_start delta of
           Inl e \<Rightarrow> (trace, Inl e)
         | Inr next_end \<Rightarrow>
             (let current_end = (if next_end > end then end else next_end);
                  params = request_params current_start current_end granularity;
                  response = http url params
              in fetch_loop http url granularity end current_end
                   (extend_candles all_candles response)
                   (trace @ [Get url params, Sleep (1 / 2)])))
      else (trace, Inr all_candles))"
  by pat_completeness auto
termination
  by (relation "measure (\<lambda>(http, url, granularity, end, current_start, all_candles, trace).
        nat (end - current_start))")
     (auto simp: datetime_add_def delta_def timedelta_minutes_def us_per_second_def
        split: if_splits)

definition fetch_candles ::
  "'c http \<Rightarrow> string \<Rightarrow> datetime \<Rightarrow> datetime \<Rightarrow> int \<Rightarrow> event list \<times> (py_error + 'c list)" where
  "fetch_candles http product_id start end granularity =
     fetch_loop http (product_url product_id) granularity end start [] []"

subsection \<open>The sub-windows of a call\<close>

text \<open>
  The pairs \<open>(current_start, current_end)\<close> of the iterations of the loop, in order: the
  loop of \<open>fetch_candles\<close> without its requests. The list ends where the loop ends, at
  \<open>end\<close> or at the addition that raises.
\<close>

function sub_windows :: "datetime \<Rightarrow> datetime \<Rightarrow> (datetime \<times> datetime) list" where
  "sub_windows end current_start =
     (if current_start < end then
        (case datetime_add current_start delta of
           Inl e \<Rightarrow> []
         | Inr next_end \<Rightarrow>
             (let current_end = (if next_end > end then end else next_end)
              in (current_start, current_end) # sub_windows end current_end))
      else [])"
  by pat_completeness auto
termination
  by (relation "measure (\<lambda>(end, current_start). nat (end - current_start))")
     (auto simp: datetime_add_def delta_def timedelta_minutes_def us_per_second_def
        split: if_splits)

text \<open>The events of one sub-window, and the candles it adds to the returned list.\<close>

definition window_events :: "string \<Rightarrow> int \<Rightarrow> datetime \<times> datetime \<Rightarrow> event list" where
  "window_events url granularity w =
     [Get url (request_params (fst w) (snd w) granularity), Sleep (1 / 2)]"

definition window_candles :: "'c http \<Rightarrow> string \<Rightarrow> int \<Rightarrow> datetime \<times> datetime \<Rightarrow> 'c list" where
  "window_candles http url granularity w =
     extend_candles [] (http url (request_params (fst w) (snd w) granularity))"

text \<open>
  The number of steps of 300 minutes that cover the interval from \<open>start\<close> to \<open>end\<close>, and
  the intervals that the loop can walk inside the range of \<open>datetime\<close>: the start of the last
  sub-window plus 300 minutes, which the loop computes before it clamps, is at most
  \<open>datetime.max\<close>.
\<close>

definition steps :: "datetime \<Rightarrow> datetime \<Rightarrow> int" where
  "steps start end = (end - start + delta - 1) div delta"

definition in_range :: "datetime \<Rightarrow> datetime \<Rightarrow> bool" where
  "in_range start end = (0 \<le> start \<and> start + steps start end * delta \<le> datetime_max)"

section \<open>The store\<close>

text \<open>
  The values of a candle of the exchange API, \<open>[time, low, high, open, close, volume]\<close>, as
  the JSON decoder gives them to Python: the time is an integer; each of the other five is an
  \<open>int\<close>, a \<open>float\<close>, \<open>None\<close> (a JSON null) or a list (a nested JSON array). (Strings, which
  the column affinity would convert, do not occur in the candles of the API and are left
  out. A \<open>float\<close> is modelled by the real number it stands for.)
\<close>

datatype pyval = PyInt int | PyFloat real | PyNone | PyList "pyval list"

record candle =
  candle_time :: int
  candle_low :: pyval
  candle_high :: pyval
  candle_open :: pyval
  candle_close :: pyval
  candle_volume :: pyval

text \<open>
  A row of the table \<open>candles\<close>. The five value columns are declared \<open>REAL\<close>: each holds
  \<open>NULL\<close> (\<open>None\<close>) or a floating point number. The table is the list of its rows in the
  order of their insertion; its primary key is \<open>(timestamp, product_id)\<close>.
\<close>

record row =
  timestamp :: string
  product_id :: string
  low :: "real option"
  high :: "real option"
  open_p :: "real option"
  close_p :: "real option"
  volume :: "real option"

type_synonym table = "row list"

definition primary_key :: "row \<Rightarrow> string \<times> string" where
  "primary_key r = (timestamp r, product_id r)"

text \<open>
  A connection: the database file as of the last commit, and the database as the connection
  sees it, with the changes of its open transaction. The database holds the table
  \<open>candles\<close> or does not (\<open>None\<close>).
\<close>

record connection =
  committed :: "table option"
  current :: "table option"

definition commit :: "connection \<Rightarrow> connection" where
  "commit conn = conn\<lparr>committed := current conn\<rparr>"

definition drop_table_if_exists :: "connection \<Rightarrow> connection" where
  "drop_table_if_exists conn = conn\<lparr>current := None\<rparr>"

definition create_table_if_not_exists :: "connection \<Rightarrow> connection" where
  "create_table_if_not_exists conn =
     (case current conn of None \<Rightarrow> conn\<lparr>current := Some []\<rparr> | Some rows \<Rightarrow> conn)"

text \<open>\<open>init_db\<close>, on the database file that \<open>sqlite3.connect\<close> opens.\<close>

definition init_db :: "bool \<Rightarrow> table option \<Rightarrow> connection" where
  "init_db reset file =
     (let conn = \<lparr>committed = file, current = file\<rparr>;
          conn = (if reset then drop_table_if_exists conn else conn);
          conn = create_table_if_not_exists conn
      in commit conn)"

text \<open>
  What \<open>cursor.execute\<close> can raise: an \<open>sqlite3.Error\<close>, which the \<open>except\<close> clause of
  \<open>store_data\<close> catches, or another exception, which it does not catch.
\<close>

datatype sqlite_error = OperationalError | ProgrammingError

datatype exception = Sqlite3_Error sqlite_error | Other_Error py_error

text \<open>
  Binding one Python value to a parameter of the statement, and the value the \<open>REAL\<close> column
  then stores. An \<open>int\<close> must fit the signed 64-bit integers of SQLite, else the module
  raises \<open>OverflowError\<close>, which is no \<open>sqlite3.Error\<close>; the column stores it as a floating
  point number. A list is of no type that the module supports: \<open>ProgrammingError\<close>.
\<close>

fun bind_value :: "pyval \<Rightarrow> exception + real option" where
  "bind_value (PyInt n) =
     (if - (2 ^ 63) \<le> n \<and> n < 2 ^ 63 then Inr (Some (of_int n))
      else Inl (Other_Error OverflowError))"
| "bind_value (PyFloat x) = Inr (Some x)"
| "bind_value PyNone = Inr None"
| "bind_value (PyList xs) = Inl (Sqlite3_Error ProgrammingError)"

text \<open>
  The parameters are bound in their order, \<open>(ts, product_id, low, high, open_p, close_p,
  volume)\<close>; the first that cannot be bound raises. The two strings always bind.
\<close>

definition bind_values ::
  "candle \<Rightarrow> exception + real option \<times> real option \<times> real option \<times> real option \<times> real option"
  where
  "bind_values c =
     (case bind_value (candle_low c) of Inl e \<Rightarrow> Inl e | Inr l \<Rightarrow>
      case bind_value (candle_high c) of Inl e \<Rightarrow> Inl e | Inr h \<Rightarrow>
      case bind_value (candle_open c) of Inl e \<Rightarrow> Inl e | Inr op \<Rightarrow>
      case bind_value (candle_close c) of Inl e \<Rightarrow> Inl e | Inr cl \<Rightarrow>
      case bind_value (candle_volume c) of Inl e \<Rightarrow> Inl e | Inr v \<Rightarrow>
        Inr (l, h, op, cl, v))"

definition bind_parameters :: "string \<Rightarrow> string \<Rightarrow> candle \<Rightarrow> exception + row" where
  "bind_parameters ts pid c =
     (case bind_values c of
        Inl e \<Rightarrow> Inl e
      | Inr (l, h, op, cl, v) \<Rightarrow>
          Inr \<lparr>timestamp = ts, product_id = pid, low = l, high = h, open_p = op, close_p = cl,
               volume = v\<rparr>)"

text \<open>
  \<open>INSERT OR IGNORE INTO candles ... VALUES (?, ?, ?, ?, ?, ?, ?)\<close> with the values of a
  candle as parameters. The statement is compiled first (no table: \<open>OperationalError\<close>), then
  its parameters are bound, then it runs: a row whose primary key is in the table is ignored,
  any other is added.
\<close>

definition execute_insert_or_ignore ::
  "string \<Rightarrow> string \<Rightarrow> candle \<Rightarrow> connection \<Rightarrow> exception + connection" where
  "execute_insert_or_ignore ts pid c conn =
     (case current conn of
        None \<Rightarrow> Inl (Sqlite3_Error OperationalError)
      | Some rows \<Rightarrow>
          (case bind_parameters ts pid c of
             Inl e \<Rightarrow> Inl e
           | Inr r \<Rightarrow>
               if primary_key r \<in> set (map primary_key rows) then Inr conn
               else Inr (conn\<lparr>current := Some (rows @ [r])\<rparr>)))"

text \<open>
  The \<open>for\<close> loop of \<open>store_data\<close>, from the connection's state and \<open>count\<close>. A time that
  \<open>datetime.fromtimestamp\<close> refuses ends the call with the exception, outside the \<open>try\<close>;
  an \<open>sqlite3.Error\<close> of the insertion is caught, and the loop goes on with the next candle;
  any other exception of the insertion ends the call.
\<close>

fun store_loop ::
  "string \<Rightarrow> candle list \<Rightarrow> connection \<Rightarrow> nat \<Rightarrow> connection \<times> (py_error + nat)" where
  "store_loop pid [] conn count = (conn, Inr count)"
| "store_loop pid (c # candles) conn count =
     (case fromtimestamp_utc (candle_time c) of
        Inl e \<Rightarrow> (conn, Inl e)
      | Inr d \<Rightarrow>
          (case execute_insert_or_ignore (isoformat_utc d) pid c conn of
             Inl (Sqlite3_Error err) \<Rightarrow> store_loop pid candles conn count
           | Inl (Other_Error e) \<Rightarrow> (conn, Inl e)
           | Inr conn' \<Rightarrow> store_loop pid candles conn' (count + 1)))"

text \<open>
  \<open>store_data\<close>: the connection after the call, and the count it prints as stored or the
  exception that ended it (then nothing is committed).
\<close>

definition store_data ::
  "connection \<Rightarrow> string \<Rightarrow> candle list \<Rightarrow> connection \<times> (py_error + nat)" where
  "store_data conn pid candles =
     (case store_loop pid candles conn 0 of
        (conn', Inl e) \<Rightarrow> (conn', Inl e)
      | (conn', Inr count) \<Rightarrow> (commit conn', Inr count))"

text \<open>A sequence of calls of \<open>store_data\<close> on one connection, whatever each returns.\<close>

fun store_calls :: "(string \<times> candle list) list \<Rightarrow> connection \<Rightarrow> connection" where
  "store_calls [] conn = conn"
| "store_calls ((pid, candles) # calls) conn =
     store_calls calls (fst (store_data conn pid candles))"

subsection \<open>Notions for the properties of the store\<close>

text \<open>The rows of the table \<open>candles\<close> of a database, none when it has no such table.\<close>

definition table_rows :: "table option \<Rightarrow> row list" where
  "table_rows t = (case t of None \<Rightarrow> [] | Some rows \<Rightarrow> rows)"

text \<open>A candle whose time \<open>datetime.fromtimestamp\<close> accepts.\<close>

definition timestamp_ok :: "candle \<Rightarrow> bool" where
  "timestamp_ok c = (case fromtimestamp_utc (candle_time c) of Inl e \<Rightarrow> False | Inr d \<Rightarrow> True)"

text \<open>
  What binding the values of a candle comes to: all five are bound, or an \<open>sqlite3.Error\<close>
  is raised, or another exception.
\<close>

datatype binding = Bound | Caught | Uncaught

definition candle_binding :: "candle \<Rightarrow> binding" where
  "candle_binding c =
     (case bind_values c of
        Inr vs \<Rightarrow> Bound
      | Inl (Sqlite3_Error err) \<Rightarrow> Caught
      | Inl (Other_Error e) \<Rightarrow> Uncaught)"

text \<open>
  A candle after which the loop of \<open>store_data\<close> goes on: its time is accepted and its
  insertion raises nothing, or an \<open>sqlite3.Error\<close>.
\<close>

definition goes_on :: "candle \<Rightarrow> bool" where
  "goes_on c = (timestamp_ok c \<and> candle_binding c \<noteq> Uncaught)"

text \<open>A candle whose insertion, into a database with the table, raises nothing.\<close>

definition inserts :: "candle \<Rightarrow> bool" where
  "inserts c = (candle_binding c = Bound)"

text \<open>The key under which \<open>store_data\<close> stores a candle of a product, for a time it accepts.\<close>

definition candle_key :: "string \<Rightarrow> candle \<Rightarrow> (string \<times> string) option" where
  "candle_key pid c =
     (case fromtimestamp_utc (candle_time c) of
        Inl e \<Rightarrow> None
      | Inr d \<Rightarrow> Some (isoformat_utc d, pid))"

text \<open>A candle whose key is the key of a row of the list.\<close>

definition already_stored :: "row list \<Rightarrow> string \<Rightarrow> candle \<Rightarrow> bool" where
  "already_stored rows pid c =
     (case candle_key pid c of
        None \<Rightarrow> False
      | Some k \<Rightarrow> k \<in> set (map primary_key rows))"

definition unique_keys :: "table option \<Rightarrow> bool" where
  "unique_keys t = (case t of None \<Rightarrow> False | Some rows \<Rightarrow> distinct (map primary_key rows))"

section \<open>The aggregator\<close>

text \<open>
  \<open>strftime('%Y-%m-%d %H:00:00', timestamp)\<close> for the timestamps that \<open>store_data\<close> writes,
  \<open>YYYY-MM-DDTHH:MM:SS+00:00\<close>: the date, a space, the hour and \<open>:00:00\<close>. (The function of
  SQLite reads other forms of dates too; no other text is in the column.)
\<close>

definition strftime_hour :: "string \<Rightarrow> string" where
  "strftime_hour ts = take 10 ts @ '' '' @ take 2 (drop 11 ts) @ '':00:00''"

text \<open>
  The aggregate functions \<open>AVG\<close> and \<open>SUM\<close> over the values of a column in the rows of a
  group: each keeps a sum and a count of the values that are not \<open>NULL\<close>, and gives \<open>NULL\<close>
  when there is none. The sums are computed exactly here, over the reals the stored
  numbers stand for; SQLite computes them in double precision, so that its results are
  these up to rounding.
\<close>

fun aggregate_step :: "real \<times> nat \<Rightarrow> real option \<Rightarrow> real \<times> nat" where
  "aggregate_step (s, cnt) None = (s, cnt)"
| "aggregate_step (s, cnt) (Some x) = (s + x, cnt + 1)"

definition sql_sum :: "real option list \<Rightarrow> real option" where
  "sql_sum vs =
     (case foldl aggregate_step (0, 0) vs of
        (s, cnt) \<Rightarrow> if cnt = 0 then None else Some s)"

definition sql_avg :: "real option list \<Rightarrow> real option" where
  "sql_avg vs =
     (case foldl aggregate_step (0, 0) vs of
        (s, cnt) \<Rightarrow> if cnt = 0 then None else Some (s / real cnt))"

text \<open>
  A row of the result, with the hour bucket as text (as the query gives it) or converted (as
  \<open>fetch_aggregated_data\<close> returns it).
\<close>

record 'b aggregate =
  agg_product_id :: string
  hour_bucket :: 'b
  hourly_avg_price :: "real option"
  hourly_total_volume :: "real option"

text \<open>
  The query. \<open>GROUP BY product_id, hour_bucket\<close>: the groups are the different pairs of
  these two values among the rows, in the order of the pairs; \<open>SELECT\<close>: one row for each
  group, with the aggregates over the rows of the group; \<open>ORDER BY hour_bucket ASC\<close>: the
  rows sorted by their hour bucket, as text. (SQL leaves the order of the rows of one hour
  bucket open; it is here as SQLite gives it, by product.)
\<close>

definition group_key :: "row \<Rightarrow> string \<times> string" where
  "group_key r = (product_id r, strftime_hour (timestamp r))"


definition select_group :: "row list \<Rightarrow> string \<times> string \<Rightarrow> string aggregate" where
  "select_group rows k =
     \<lparr>agg_product_id = fst k, hour_bucket = snd k,
      hourly_avg_price = sql_avg (map close_p (filter (\<lambda>r. group_key r = k) rows)),
      hourly_total_volume = sql_sum (map volume (filter (\<lambda>r. group_key r = k) rows))\<rparr>"





subsection \<open>Notions for the properties of the aggregator\<close>





section \<open>Sample data\<close>

text \<open>
  The interval from 2025-11-17T00:00:00 to 2025-11-17T11:00:00, three sub-windows long, and
  an exchange that answers the first with one candle, the second with status 429 and any
  other with an empty list.
\<close>

definition sample_start :: datetime where
  "sample_start = 63898934400000000"

definition sample_end :: datetime where
  "sample_end = 63898974000000000"

definition sample_candle :: candle where
  "sample_candle =
     \<lparr>candle_time = 1763337600, candle_low = PyFloat 95000, candle_high = PyFloat 95500,
      candle_open = PyFloat 95100, candle_close = PyFloat 95400, candle_volume = PyFloat 12\<rparr>"

definition sample_exchange :: "candle http" where
  "sample_exchange url params =
     (if start_param params = ''2025-11-17T00:00:00''
      then \<lparr>status_code = 200, json = [sample_candle]\<rparr>
      else if start_param params = ''2025-11-17T05:00:00''
      then \<lparr>status_code = 429, json = []\<rparr>
      else \<lparr>status_code = 200, json = []\<rparr>)"

text \<open>
  Candles for the store: a second candle one minute later; a candle at the time of the first
  with other values; one at that time whose \<open>low\<close> is a list; and one at that time whose
  \<open>volume\<close> is the integer \<open>2 ^ 63\<close>.
\<close>

definition later_candle :: candle where
  "later_candle =
     \<lparr>candle_time = 1763337660, candle_low = PyFloat 95300, candle_high = PyFloat 95600,
      candle_open = PyFloat 95400, candle_close = PyFloat 95350, candle_volume = PyFloat 7\<rparr>"

definition revised_candle :: candle where
  "revised_candle =
     \<lparr>candle_time = 1763337600, candle_low = PyInt 1, candle_high = PyInt 2,
      candle_open = PyInt 3, candle_close = PyInt 4, candle_volume = PyInt 5\<rparr>"

definition unbindable_candle :: candle where
  "unbindable_candle =
     \<lparr>candle_time = 1763337600, candle_low = PyList [PyInt 1], candle_high = PyInt 2,
      candle_open = PyInt 3, candle_close = PyInt 4, candle_volume = PyInt 5\<rparr>"

definition overflowing_candle :: candle where
  "overflowing_candle =
     \<lparr>candle_time = 1763337600, candle_low = PyInt 1, candle_high = PyInt 2,
      candle_open = PyInt 3, candle_close = PyInt 4,
      candle_volume = PyInt 9223372036854775808\<rparr>"

text \<open>The rows of the first two candles, for two products.\<close>

definition sample_row :: row where
  "sample_row =
     \<lparr>timestamp = ''2025-11-17T00:00:00+00:00'', product_id = ''BTC-USD'', low = Some 95000,
      high = Some 95500, open_p = Some 95100, close_p = Some 95400, volume = Some 12\<rparr>"

definition later_row :: row where
  "later_row =
     \<lparr>timestamp = ''2025-11-17T00:01:00+00:00'', product_id = ''BTC-USD'', low = Some 95300,
      high = Some 95600, open_p = Some 95400, close_p = Some 95350, volume = Some 7\<rparr>"

definition other_row :: row where
  "other_row =
     \<lparr>timestamp = ''2025-11-17T00:00:00+00:00'', product_id = ''ETH-USD'', low = Some 95000,
      high = Some 95500, open_p = Some 95100, close_p = Some 95400, volume = Some 12\<rparr>"

definition sample_conn :: connection where
  "sample_conn = \<lparr>committed = Some [sample_row], current = Some [sample_row]\<rparr>"

text \<open>Three calls of \<open>store_data\<close> with overlapping candles, for two products.\<close>

definition sample_calls :: "(string \<times> candle list) list" where
  "sample_calls =
     [(''BTC-USD'', [sample_candle, revised_candle, unbindable_candle, later_candle]),
      (''ETH-USD'', [sample_candle]),
      (''BTC-USD'', [later_candle, sample_candle])]"




section \<open>Properties of the fetcher\<close>

text \<open>
  The events of the loop are those of its sub-windows, whatever the responses are and
  however the call ends.
\<close>

lemma delta_pos: "0 < delta"
  by (simp add: delta_def timedelta_minutes_def us_per_second_def)

lemma extend_candles_append:
  "extend_candles acc r = acc @ extend_candles [] r"
  by (simp add: extend_candles_def)

declare fetch_loop.simps [simp del] sub_windows.simps [simp del]

lemma fetch_loop_trace:
  "fst (fetch_loop http url g e cs acc tr) = tr @ concat (map (window_events url g) (sub_windows e cs))"
proof (induction http url g e cs acc tr rule: fetch_loop.induct)
  case (1 http url g e cs acc tr)
  show ?case
  proof (cases "cs < e")
    case False
    then show ?thesis by (simp add: fetch_loop.simps [of _ _ _ e cs] sub_windows.simps [of e cs])
  next
    case True
    show ?thesis
    proof (cases "datetime_add cs delta")
      case (Inl err)
      with True show ?thesis
        by (simp add: fetch_loop.simps [of _ _ _ e cs] sub_windows.simps [of e cs])
    next
      case (Inr ne)
      with True "1.IH" [OF True Inr refl refl refl] show ?thesis
        by (simp add: fetch_loop.simps [of _ _ _ e cs] sub_windows.simps [of e cs] Let_def window_events_def)
    qed
  qed
qed

text \<open>
  Inside the range every addition of the loop succeeds, and the loop returns the candles
  of its sub-windows.
\<close>

lemma steps_pos: "s < e \<Longrightarrow> 1 \<le> steps s e"
proof -
  assume "s < e"
  then have "delta \<le> e - s + delta - 1" by simp
  then have "0 < (e - s + delta - 1) div delta"
    using delta_pos by (simp add: pos_imp_zdiv_pos_iff)
  then show ?thesis by (simp add: steps_def)
qed

lemma steps_step: "steps (s + delta) e = steps s e - 1"
proof -
  have "e - s + delta - 1 = (e - (s + delta) + delta - 1) + delta" by simp
  then have "(e - s + delta - 1) div delta = (e - (s + delta) + delta - 1) div delta + 1"
    using delta_pos by (metis div_add_self2 less_irrefl)
  then show ?thesis by (simp add: steps_def)
qed

lemma steps_end: "steps e e = 0"
  using delta_pos by (simp add: steps_def div_pos_pos_trivial)

lemma steps_delta: "s < e \<Longrightarrow> delta \<le> steps s e * delta"
  using mult_right_mono [OF steps_pos, of s e delta] delta_pos by simp

lemma in_range_add:
  assumes "s < e" and "in_range s e"
  shows "datetime_add s delta = Inr (s + delta)"
proof -
  have "s + delta \<le> datetime_max" and "0 \<le> s + delta"
    using steps_delta [OF assms(1)] assms(2) delta_pos unfolding in_range_def by linarith+
  then show ?thesis
    by (simp add: datetime_add_def)
qed

lemma in_range_next:
  assumes "s < e" and "in_range s e"
  shows "in_range (if e < s + delta then e else s + delta) e"
proof (cases "e < s + delta")
  case True
  have "e \<le> datetime_max" and "0 \<le> e"
    using steps_delta [OF assms(1)] assms True unfolding in_range_def by linarith+
  with True show ?thesis
    by (simp add: in_range_def steps_end)
next
  case False
  have "steps (s + delta) e * delta = steps s e * delta - delta"
    by (simp add: steps_step left_diff_distrib)
  with False assms delta_pos show ?thesis
    by (simp add: in_range_def)
qed

lemma fetch_loop_result:
  "in_range cs e \<Longrightarrow>
   snd (fetch_loop http url g e cs acc tr) =
     Inr (acc @ concat (map (window_candles http url g) (sub_windows e cs)))"
proof (induction http url g e cs acc tr rule: fetch_loop.induct)
  case (1 http url g e cs acc tr)
  show ?case
  proof (cases "cs < e")
    case False
    then show ?thesis by (simp add: fetch_loop.simps [of _ _ _ e cs] sub_windows.simps [of e cs])
  next
    case True
    note add = in_range_add [OF True "1.prems"]
    note nxt = in_range_next [OF True "1.prems"]
    from "1.IH" [OF True add refl refl refl nxt] True add show ?thesis
      by (simp add: fetch_loop.simps [of _ _ _ e cs] sub_windows.simps [of e cs] Let_def
          window_candles_def extend_candles_append [of "extend_candles acc _"]
          extend_candles_append [of acc])
  qed
qed

text \<open>The shape of the list of sub-windows.\<close>

lemma sub_windows_hd:
  "sub_windows e x \<noteq> [] \<Longrightarrow> fst (hd (sub_windows e x)) = x \<and> x < e"
  by (simp add: sub_windows.simps [of e x] Let_def split: if_splits sum.splits)

lemma sub_windows_first:
  "s < e \<Longrightarrow> in_range s e \<Longrightarrow> sub_windows e s \<noteq> [] \<and> fst (hd (sub_windows e s)) = s"
  by (simp add: sub_windows.simps [of e s] Let_def in_range_add)

lemma sub_windows_last:
  "s < e \<Longrightarrow> in_range s e \<Longrightarrow> snd (last (sub_windows e s)) = e"
proof (induction e s rule: sub_windows.induct)
  case (1 e s)
  note add = in_range_add [OF "1.prems"]
  note nxt = in_range_next [OF "1.prems"]
  show ?case
  proof (cases "e < s + delta")
    case True
    with "1.prems" add show ?thesis
      by (simp add: sub_windows.simps [of e s] sub_windows.simps [of e e])
  next
    case False
    show ?thesis
    proof (cases "s + delta = e")
      case True
      with "1.prems" add show ?thesis
        by (simp add: sub_windows.simps [of e s] sub_windows.simps [of e e])
    next
      case ne: False
      with False have lt: "s + delta < e" by simp
      from "1.IH" [OF "1.prems"(1) add refl] lt nxt False
      have "snd (last (sub_windows e (s + delta))) = e" by simp
      moreover have "sub_windows e (s + delta) \<noteq> []"
        using sub_windows_first [OF lt] nxt False by simp
      ultimately show ?thesis
        using "1.prems" add False by (simp add: sub_windows.simps [of e s] Let_def)
    qed
  qed
qed

lemma sub_windows_consecutive:
  "Suc i < length (sub_windows e s) \<Longrightarrow>
   fst (sub_windows e s ! Suc i) = snd (sub_windows e s ! i)
   \<and> snd (sub_windows e s ! i) - fst (sub_windows e s ! i) = delta"
proof (induction e s arbitrary: i rule: sub_windows.induct)
  case (1 e s)
  from "1.prems" have ne: "sub_windows e s \<noteq> []" by auto
  then have lt: "s < e" using sub_windows_hd by blast
  from ne lt obtain n where add: "datetime_add s delta = Inr n"
    by (auto simp: sub_windows.simps [of e s] split: sum.splits)
  define ce where "ce = (if e < n then e else n)"
  have W: "sub_windows e s = (s, ce) # sub_windows e ce"
    using lt add by (simp add: sub_windows.simps [of e s] ce_def)
  from "1.prems" W have len: "i < length (sub_windows e ce)" by simp
  then have ne': "sub_windows e ce \<noteq> []" by auto
  from sub_windows_hd [OF ne'] have hd': "fst (hd (sub_windows e ce)) = ce" and lt': "ce < e"
    by simp_all
  from add have n: "n = s + delta" by (simp add: datetime_add_def split: if_splits)
  from lt' have ce: "ce = s + delta" by (simp add: ce_def n split: if_splits)
  show ?case
  proof (cases i)
    case 0
    with W hd' ne' ce show ?thesis by (simp add: hd_conv_nth)
  next
    case (Suc j)
    with "1.prems" W have "Suc j < length (sub_windows e ce)" by simp
    from "1.IH" [OF lt add ce_def [symmetric, THEN sym] this] Suc W show ?thesis by simp
  qed
qed

lemma sub_windows_span:
  "w \<in> set (sub_windows e s) \<Longrightarrow> fst w < snd w \<and> snd w - fst w \<le> delta"
proof (induction e s rule: sub_windows.induct)
  case (1 e s)
  from "1.prems" have ne: "sub_windows e s \<noteq> []" by auto
  then have lt: "s < e" using sub_windows_hd by blast
  from ne lt obtain n where add: "datetime_add s delta = Inr n"
    by (auto simp: sub_windows.simps [of e s] split: sum.splits)
  then have n: "n = s + delta" by (simp add: datetime_add_def split: if_splits)
  define ce where "ce = (if e < n then e else n)"
  have W: "sub_windows e s = (s, ce) # sub_windows e ce"
    using lt add by (simp add: sub_windows.simps [of e s] ce_def)
  with "1.prems" consider "w = (s, ce)" | "w \<in> set (sub_windows e ce)" by auto
  then show ?case
  proof cases
    case 1
    with lt n delta_pos show ?thesis by (simp add: ce_def)
  next
    case 2
    from "1.IH" [OF lt add ce_def [symmetric, THEN sym] 2] show ?thesis .
  qed
qed

text \<open>
  The range is exact: an interval that ends at least 300 minutes before \<open>datetime.max\<close> is
  inside it, and outside it the call raises \<open>OverflowError\<close>.
\<close>

lemma in_range_sufficient:
  assumes "0 \<le> s" and "s < e" and "e + delta \<le> datetime_max"
  shows "in_range s e"
proof -
  have "steps s e * delta = (e - s + delta - 1) - (e - s + delta - 1) mod delta"
    by (simp add: steps_def minus_mod_eq_div_mult)
  moreover have "0 \<le> (e - s + delta - 1) mod delta"
    using delta_pos by simp
  ultimately have "steps s e * delta \<le> e - s + delta - 1"
    by simp
  with assms show ?thesis by (simp add: in_range_def)
qed

lemma steps_one: "s < e \<Longrightarrow> e \<le> s + delta \<Longrightarrow> steps s e = 1"
proof -
  assume "s < e" "e \<le> s + delta"
  then have "e - s + delta - 1 = (e - s - 1) + 1 * delta" "0 \<le> e - s - 1" "e - s - 1 < delta"
    by simp_all
  then have "(e - s + delta - 1) div delta = 1"
    by (metis add.commute add.right_neutral div_mult_self1 div_pos_pos_trivial less_irrefl
        delta_pos)
  then show ?thesis by (simp add: steps_def)
qed

lemma fetch_loop_overflow:
  assumes "cs < e" and "0 \<le> cs" and "datetime_max < cs + steps cs e * delta"
  shows "snd (fetch_loop http url g e cs acc tr) = Inl OverflowError"
  using assms
proof (induction http url g e cs acc tr rule: fetch_loop.induct)
  case (1 http url g e cs acc tr)
  show ?case
  proof (cases "datetime_add cs delta")
    case (Inl err)
    then have "err = OverflowError" by (simp add: datetime_add_def split: if_splits)
    with Inl "1.prems"(1) show ?thesis
      by (simp add: fetch_loop.simps [of _ _ _ e cs])
  next
    case (Inr n)
    then have n: "n = cs + delta" and le: "cs + delta \<le> datetime_max"
      by (simp_all add: datetime_add_def split: if_splits)
    have lt: "cs + delta < e"
    proof (rule ccontr)
      assume "\<not> cs + delta < e"
      then have "steps cs e = 1" using "1.prems"(1) by (simp add: steps_one)
      with "1.prems"(3) le show False by simp
    qed
    have "steps (cs + delta) e * delta = steps cs e * delta - delta"
      by (simp add: steps_step left_diff_distrib)
    with "1.prems"(3) have over: "datetime_max < cs + delta + steps (cs + delta) e * delta"
      by simp
    from "1.prems"(2) delta_pos have nonneg: "0 \<le> cs + delta" by simp
    have ce: "(if e < n then e else n) = cs + delta" using lt n by simp
    from "1.IH" [OF "1.prems"(1) Inr refl refl refl] lt nonneg over ce
    have "snd (fetch_loop http url g e (cs + delta)
        (extend_candles acc (http url (request_params cs (cs + delta) g)))
        (tr @ [Get url (request_params cs (cs + delta) g), Sleep (1 / 2)])) = Inl OverflowError"
      by simp
    with "1.prems"(1) Inr ce show ?thesis
      by (simp add: fetch_loop.simps [of _ _ _ e cs] Let_def)
  qed
qed

subsection \<open>The walk over the interval\<close>

text \<open>
  Claim C3, for the intervals that the loop can walk inside the range of \<open>datetime\<close>. For
  \<open>start\<close> earlier than \<open>end\<close>, \<open>fetch_candles\<close> goes through the sub-windows
  \<open>sub_windows end start\<close>: there is at least one, the first starts at \<open>start\<close>, each
  starts where the one before it ended, each but the last is 300 minutes long, and the last
  ends at \<open>end\<close>. The events of the call are, for each sub-window in this order, one GET
  with the ISO text of its bounds as \<open>start\<close> and \<open>end\<close>, followed by a sleep of half a
  second; the list returned is the concatenation, in the same order, of the bodies of the
  responses of status 200.
\<close>

theorem fetch_candles_walks_interval:
  assumes "start < end" and "in_range start end"
  shows "sub_windows end start \<noteq> []
    \<and> fst (hd (sub_windows end start)) = start
    \<and> snd (last (sub_windows end start)) = end
    \<and> (\<forall>i. Suc i < length (sub_windows end start) \<longrightarrow>
          fst (sub_windows end start ! Suc i) = snd (sub_windows end start ! i)
          \<and> snd (sub_windows end start ! i) - fst (sub_windows end start ! i)
              = timedelta_minutes 300)
    \<and> fetch_candles http pid start end granularity =
        (concat (map (window_events (product_url pid) granularity) (sub_windows end start)),
         Inr (concat (map (window_candles http (product_url pid) granularity)
                (sub_windows end start))))"
proof -
  have "fst (fetch_candles http pid start end granularity) =
      concat (map (window_events (product_url pid) granularity) (sub_windows end start))"
    by (simp add: fetch_candles_def fetch_loop_trace)
  moreover have "snd (fetch_candles http pid start end granularity) =
      Inr (concat (map (window_candles http (product_url pid) granularity)
        (sub_windows end start)))"
    using assms(2) by (simp add: fetch_candles_def fetch_loop_result)
  ultimately have "fetch_candles http pid start end granularity =
        (concat (map (window_events (product_url pid) granularity) (sub_windows end start)),
         Inr (concat (map (window_candles http (product_url pid) granularity)
                (sub_windows end start))))"
    by (simp add: prod_eq_iff)
  moreover note sub_windows_first [OF assms] sub_windows_last [OF assms]
  moreover have "\<forall>i. Suc i < length (sub_windows end start) \<longrightarrow>
          fst (sub_windows end start ! Suc i) = snd (sub_windows end start ! i)
          \<and> snd (sub_windows end start ! i) - fst (sub_windows end start ! i)
              = timedelta_minutes 300"
    using sub_windows_consecutive [of _ "end" start] by (simp add: delta_def)
  ultimately show ?thesis by blast
qed

text \<open>
  The theorem at the sample interval of eleven hours: three sub-windows, three requests,
  and the one candle of the first response returned.
\<close>

theorem fetch_candles_walks_interval_witness:
  "sample_start < sample_end \<and> in_range sample_start sample_end
   \<and> sub_windows sample_end sample_start =
       [(63898934400000000, 63898952400000000), (63898952400000000, 63898970400000000),
        (63898970400000000, 63898974000000000)]
   \<and> fst (hd (sub_windows sample_end sample_start)) = sample_start
   \<and> snd (last (sub_windows sample_end sample_start)) = sample_end
   \<and> fetch_candles sample_exchange ''BTC-USD'' sample_start sample_end 60 =
       ([Get ''https://api.exchange.coinbase.com/products/BTC-USD/candles''
           \<lparr>start_param = ''2025-11-17T00:00:00'', end_param = ''2025-11-17T05:00:00'',
            granularity_param = 60\<rparr>,
         Sleep (1 / 2),
         Get ''https://api.exchange.coinbase.com/products/BTC-USD/candles''
           \<lparr>start_param = ''2025-11-17T05:00:00'', end_param = ''2025-11-17T10:00:00'',
            granularity_param = 60\<rparr>,
         Sleep (1 / 2),
         Get ''https://api.exchange.coinbase.com/products/BTC-USD/candles''
           \<lparr>start_param = ''2025-11-17T10:00:00'', end_param = ''2025-11-17T11:00:00'',
            granularity_param = 60\<rparr>,
         Sleep (1 / 2)],
        Inr [sample_candle])"
proof -
  have lt: "sample_start < sample_end"
    by (simp add: sample_start_def sample_end_def)
  have rng: "in_range sample_start sample_end"
    by code_simp
  have win: "sub_windows sample_end sample_start =
       [(63898934400000000, 63898952400000000), (63898952400000000, 63898970400000000),
        (63898970400000000, 63898974000000000)]"
    by code_simp
  have evs: "concat (map (window_events (product_url ''BTC-USD'') 60)
        [(63898934400000000, 63898952400000000), (63898952400000000, 63898970400000000),
         (63898970400000000, 63898974000000000)]) =
       [Get ''https://api.exchange.coinbase.com/products/BTC-USD/candles''
           \<lparr>start_param = ''2025-11-17T00:00:00'', end_param = ''2025-11-17T05:00:00'',
            granularity_param = 60\<rparr>,
         Sleep (1 / 2),
         Get ''https://api.exchange.coinbase.com/products/BTC-USD/candles''
           \<lparr>start_param = ''2025-11-17T05:00:00'', end_param = ''2025-11-17T10:00:00'',
            granularity_param = 60\<rparr>,
         Sleep (1 / 2),
         Get ''https://api.exchange.coinbase.com/products/BTC-USD/candles''
           \<lparr>start_param = ''2025-11-17T10:00:00'', end_param = ''2025-11-17T11:00:00'',
            granularity_param = 60\<rparr>,
         Sleep (1 / 2)]"
    by code_simp
  have cds: "concat (map (window_candles sample_exchange (product_url ''BTC-USD'') 60)
        [(63898934400000000, 63898952400000000), (63898952400000000, 63898970400000000),
         (63898970400000000, 63898974000000000)]) = [sample_candle]"
    by code_simp
  from fetch_candles_walks_interval [OF lt rng, of sample_exchange "''BTC-USD''" 60]
  show ?thesis
    unfolding win evs cds using lt rng by simp
qed

text \<open>
  Claim C3 as it is stated fails at the top of the range of \<open>datetime\<close>: from
  9999-12-31T23:00:00 to 9999-12-31T23:30:00 the sum \<open>current_start + delta\<close> is past
  \<open>datetime.max\<close>; it is computed before it is clamped to \<open>end\<close>, so the call raises
  \<open>OverflowError\<close> with no request and no list.
\<close>

theorem fetch_candles_overflow_counterexample:
  "(315537894000000000 :: datetime) < 315537895800000000
   \<and> valid_datetime 315537894000000000 \<and> valid_datetime 315537895800000000
   \<and> isoformat 315537894000000000 = ''9999-12-31T23:00:00''
   \<and> isoformat 315537895800000000 = ''9999-12-31T23:30:00''
   \<and> fetch_candles sample_exchange ''BTC-USD'' 315537894000000000 315537895800000000 60
       = ([], Inl OverflowError)"
  by code_simp

subsection \<open>The length of a sub-window\<close>

text \<open>
  Claim C4, amended. The requests of a call are those of its sub-windows, and each
  sub-window is at most 300 minutes (18000 seconds) long, whatever the granularity: \<open>delta\<close>
  is a constant. So a sub-window is at most \<open>granularity * 300\<close> seconds long when the
  granularity is 60 or more.
\<close>

theorem sub_window_span:
  assumes "w \<in> set (sub_windows end start)"
  shows "fst (fetch_candles http pid start end granularity) =
      concat (map (window_events (product_url pid) granularity) (sub_windows end start))
    \<and> fst w < snd w
    \<and> snd w - fst w \<le> timedelta_seconds 18000
    \<and> (60 \<le> granularity \<longrightarrow> snd w - fst w \<le> timedelta_seconds (granularity * 300))"
proof -
  have "delta = timedelta_seconds 18000"
    by (simp add: delta_def timedelta_minutes_def timedelta_seconds_def)
  with sub_windows_span [OF assms]
  have span: "fst w < snd w" "snd w - fst w \<le> timedelta_seconds 18000" by simp_all
  have "timedelta_seconds 18000 \<le> timedelta_seconds (granularity * 300)" if "60 \<le> granularity"
    using that by (simp add: timedelta_seconds_def us_per_second_def)
  with span show ?thesis
    by (auto simp: fetch_candles_def fetch_loop_trace)
qed

text \<open>
  The theorem at the last sub-window of the sample interval, one hour long, with the
  granularity 60.
\<close>

theorem sub_window_span_witness:
  "(63898970400000000, 63898974000000000) \<in> set (sub_windows sample_end sample_start)
   \<and> (63898974000000000 :: datetime) - 63898970400000000 \<le> timedelta_seconds 18000
   \<and> (63898974000000000 :: datetime) - 63898970400000000 \<le> timedelta_seconds (60 * 300)"
proof -
  have mem: "(63898970400000000, 63898974000000000) \<in> set (sub_windows sample_end sample_start)"
    by code_simp
  from sub_window_span [OF mem, of sample_exchange "''BTC-USD''" 60] mem
  show ?thesis by simp
qed

text \<open>
  Claim C4 as it is stated fails for a granularity under 60: with the granularity 30 the
  first request of the sample interval still asks for the five hours from 00:00:00 to
  05:00:00, 18000 seconds, more than \<open>30 * 300\<close> seconds.
\<close>

theorem sub_window_span_counterexample:
  "(sample_start, sample_start + timedelta_seconds 18000)
     \<in> set (sub_windows sample_end sample_start)
   \<and> hd (fst (fetch_candles sample_exchange ''BTC-USD'' sample_start sample_end 30)) =
       Get ''https://api.exchange.coinbase.com/products/BTC-USD/candles''
         \<lparr>start_param = ''2025-11-17T00:00:00'', end_param = ''2025-11-17T05:00:00'',
          granularity_param = 30\<rparr>
   \<and> \<not> (sample_start + timedelta_seconds 18000) - sample_start
         \<le> timedelta_seconds (30 * 300)"
  by code_simp

subsection \<open>A request that fails or finds nothing\<close>

text \<open>
  Claim C7. In an iteration of the loop whose response has a status other than 200, or an
  empty body, the loop goes on from \<open>current_end\<close> with \<open>all_candles\<close> as it was, after
  one GET for the sub-window and a sleep of half a second, and nothing more: the events of
  the call from this iteration on are that GET, that sleep, and then the events of the
  sub-windows from \<open>current_end\<close>, the first of which, if there is one, starts at
  \<open>current_end\<close>. The request is not sent again, and the sub-window adds no candle to the
  list that is returned.
\<close>

theorem fetch_candles_failed_window:
  assumes "current_start < end"
    and "datetime_add current_start delta = Inr next_end"
    and "current_end = (if next_end > end then end else next_end)"
    and "status_code (http url (request_params current_start current_end granularity)) \<noteq> 200
         \<or> json (http url (request_params current_start current_end granularity)) = []"
  shows "fetch_loop http url granularity end current_start all_candles trace =
      fetch_loop http url granularity end current_end all_candles
        (trace @ [Get url (request_params current_start current_end granularity), Sleep (1 / 2)])
    \<and> fst (fetch_loop http url granularity end current_start all_candles trace) =
        trace @ [Get url (request_params current_start current_end granularity), Sleep (1 / 2)]
        @ concat (map (window_events url granularity) (sub_windows end current_end))
    \<and> (sub_windows end current_end = [] \<or> fst (hd (sub_windows end current_end)) = current_end)
    \<and> window_candles http url granularity (current_start, current_end) = []"
proof -
  have ext: "extend_candles all_candles
      (http url (request_params current_start current_end granularity)) = all_candles"
    using assms(4) by (auto simp: extend_candles_def)
  have step: "fetch_loop http url granularity end current_start all_candles trace =
      fetch_loop http url granularity end current_end all_candles
        (trace @ [Get url (request_params current_start current_end granularity), Sleep (1 / 2)])"
    using assms(1,2) ext unfolding assms(3)
    by (subst fetch_loop.simps) (simp add: Let_def)
  moreover have "fst (fetch_loop http url granularity end current_end all_candles
        (trace @ [Get url (request_params current_start current_end granularity), Sleep (1 / 2)]))
      = trace @ [Get url (request_params current_start current_end granularity), Sleep (1 / 2)]
        @ concat (map (window_events url granularity) (sub_windows end current_end))"
    by (simp add: fetch_loop_trace)
  moreover have "sub_windows end current_end = []
      \<or> fst (hd (sub_windows end current_end)) = current_end"
    using sub_windows_hd by blast
  moreover have "window_candles http url granularity (current_start, current_end) = []"
    using assms(4) by (auto simp: window_candles_def extend_candles_def)
  ultimately show ?thesis by simp
qed

text \<open>
  The theorem at the second sub-window of the sample interval, which the sample exchange
  answers with status 429: one GET, one sleep, then the third sub-window; the list keeps the
  one candle it had.
\<close>

theorem fetch_candles_failed_window_witness:
  "status_code (sample_exchange (product_url ''BTC-USD'')
      (request_params 63898952400000000 63898970400000000 60)) = 429
   \<and> fetch_loop sample_exchange (product_url ''BTC-USD'') 60 sample_end 63898952400000000
        [sample_candle] [] =
      fetch_loop sample_exchange (product_url ''BTC-USD'') 60 sample_end 63898970400000000
        [sample_candle]
        [Get (product_url ''BTC-USD'') (request_params 63898952400000000 63898970400000000 60),
         Sleep (1 / 2)]
   \<and> fetch_loop sample_exchange (product_url ''BTC-USD'') 60 sample_end 63898952400000000
        [sample_candle] [] =
      ([Get ''https://api.exchange.coinbase.com/products/BTC-USD/candles''
           \<lparr>start_param = ''2025-11-17T05:00:00'', end_param = ''2025-11-17T10:00:00'',
            granularity_param = 60\<rparr>,
        Sleep (1 / 2),
        Get ''https://api.exchange.coinbase.com/products/BTC-USD/candles''
           \<lparr>start_param = ''2025-11-17T10:00:00'', end_param = ''2025-11-17T11:00:00'',
            granularity_param = 60\<rparr>,
        Sleep (1 / 2)],
       Inr [sample_candle])"
proof -
  have lt: "(63898952400000000 :: datetime) < sample_end"
    by (simp add: sample_end_def)
  have add: "datetime_add 63898952400000000 delta = Inr 63898970400000000"
    by code_simp
  have ce: "(63898970400000000 :: datetime) =
      (if sample_end < 63898970400000000 then sample_end else 63898970400000000)"
    by (simp add: sample_end_def)
  have st: "status_code (sample_exchange (product_url ''BTC-USD'')
      (request_params 63898952400000000 63898970400000000 60)) = 429"
    by code_simp
  then have bad: "status_code (sample_exchange (product_url ''BTC-USD'')
        (request_params 63898952400000000 63898970400000000 60)) \<noteq> 200
      \<or> json (sample_exchange (product_url ''BTC-USD'')
        (request_params 63898952400000000 63898970400000000 60)) = []"
    by simp
  have run: "fetch_loop sample_exchange (product_url ''BTC-USD'') 60 sample_end
        63898952400000000 [sample_candle] [] =
      ([Get ''https://api.exchange.coinbase.com/products/BTC-USD/candles''
           \<lparr>start_param = ''2025-11-17T05:00:00'', end_param = ''2025-11-17T10:00:00'',
            granularity_param = 60\<rparr>,
        Sleep (1 / 2),
        Get ''https://api.exchange.coinbase.com/products/BTC-USD/candles''
           \<lparr>start_param = ''2025-11-17T10:00:00'', end_param = ''2025-11-17T11:00:00'',
            granularity_param = 60\<rparr>,
        Sleep (1 / 2)],
       Inr [sample_candle])"
    by code_simp
  note step = fetch_candles_failed_window [of 63898952400000000 sample_end 63898970400000000
      63898970400000000 sample_exchange "product_url ''BTC-USD''" 60 "[sample_candle]" "[]",
      OF lt add ce bad, THEN conjunct1, unfolded append_Nil]
  show ?thesis
    by (rule conjI [OF st conjI [OF step run]])
qed

subsection \<open>An empty interval\<close>

text \<open>
  Claim C10. When \<open>start\<close> is not earlier than \<open>end\<close>, \<open>fetch_candles\<close> sends no
  request (it has no event at all) and returns the empty list.
\<close>

theorem fetch_candles_empty_interval:
  assumes "end \<le> start"
  shows "fetch_candles http pid start end granularity = ([], Inr [])"
  using assms fetch_loop.simps [of http "product_url pid" granularity "end" start "[]" "[]"]
  by (simp add: fetch_candles_def)

text \<open>
  The theorem with the bounds of the sample interval exchanged, and with equal bounds.
\<close>

theorem fetch_candles_empty_interval_witness:
  "sample_start \<le> sample_end
   \<and> fetch_candles sample_exchange ''BTC-USD'' sample_end sample_start 60 = ([], Inr [])
   \<and> fetch_candles sample_exchange ''BTC-USD'' sample_start sample_start 60 = ([], Inr [])"
proof -
  have le: "sample_start \<le> sample_end"
    by (simp add: sample_start_def sample_end_def)
  from fetch_candles_empty_interval [OF le, of sample_exchange "''BTC-USD''" 60]
    fetch_candles_empty_interval [OF order_refl, of sample_exchange "''BTC-USD''" sample_start 60]
    le
  show ?thesis by simp
qed

section \<open>Properties of the store\<close>

text \<open>Binding depends on the values of the candle alone; the row has the key it was given.\<close>

lemma bind_parameters_Inr:
  "bind_parameters ts pid c = Inr r \<Longrightarrow> primary_key r = (ts, pid) \<and> candle_binding c = Bound"
  by (auto simp: bind_parameters_def candle_binding_def primary_key_def split: sum.splits)

lemma bind_parameters_Inl:
  "bind_parameters ts pid c = Inl e \<Longrightarrow> bind_values c = Inl e"
  by (auto simp: bind_parameters_def split: sum.splits)

lemma bound_bind_parameters:
  "candle_binding c = Bound \<Longrightarrow> \<exists>r. bind_parameters ts pid c = Inr r \<and> primary_key r = (ts, pid)"
  by (auto simp: bind_parameters_def candle_binding_def primary_key_def
      split: sum.splits exception.splits)

lemma caught_bind_parameters:
  "candle_binding c = Caught \<Longrightarrow> \<exists>err. bind_parameters ts pid c = Inl (Sqlite3_Error err)"
  by (auto simp: bind_parameters_def candle_binding_def split: sum.splits exception.splits)

lemma uncaught_bind_parameters:
  "candle_binding c = Uncaught \<Longrightarrow> \<exists>e. bind_parameters ts pid c = Inl (Other_Error e)"
  by (auto simp: bind_parameters_def candle_binding_def split: sum.splits exception.splits)

text \<open>The ways an insertion ends.\<close>

lemma execute_cases:
  assumes "execute_insert_or_ignore ts pid c conn = Inr conn'"
  obtains rows where "current conn = Some rows" and "candle_binding c = Bound"
    and "(ts, pid) \<in> set (map primary_key rows)" and "conn' = conn"
  | rows r where "current conn = Some rows" and "candle_binding c = Bound"
    and "(ts, pid) \<notin> set (map primary_key rows)" and "primary_key r = (ts, pid)"
    and "conn' = conn\<lparr>current := Some (rows @ [r])\<rparr>"
proof -
  from assms obtain rows r where cur: "current conn = Some rows"
    and r: "bind_parameters ts pid c = Inr r"
    and res: "conn' = (if primary_key r \<in> set (map primary_key rows) then conn
        else conn\<lparr>current := Some (rows @ [r])\<rparr>)"
    by (auto simp: execute_insert_or_ignore_def split: option.splits sum.splits if_splits)
  from bind_parameters_Inr [OF r] have key: "primary_key r = (ts, pid)"
    and b: "candle_binding c = Bound" by simp_all
  show thesis
  proof (cases "(ts, pid) \<in> set (map primary_key rows)")
    case True
    with that(1) [OF cur b] res key show ?thesis by simp
  next
    case False
    with that(2) [OF cur b _ key] res key show ?thesis by simp
  qed
qed

lemma execute_caught_iff:
  "(\<exists>err. execute_insert_or_ignore ts pid c conn = Inl (Sqlite3_Error err))
   \<longleftrightarrow> current conn = None \<or> candle_binding c = Caught"
  by (auto simp: execute_insert_or_ignore_def candle_binding_def bind_parameters_def
      split: option.splits sum.splits exception.splits)

lemma execute_uncaught_iff:
  "execute_insert_or_ignore ts pid c conn = Inl (Other_Error e)
   \<longleftrightarrow> current conn \<noteq> None \<and> bind_values c = Inl (Other_Error e)"
  by (auto simp: execute_insert_or_ignore_def bind_parameters_def
      split: option.splits sum.splits exception.splits)

lemma execute_stored:
  assumes "current conn = Some rows" and "candle_binding c = Bound"
    and "(ts, pid) \<in> set (map primary_key rows)"
  shows "execute_insert_or_ignore ts pid c conn = Inr conn"
  using assms bound_bind_parameters [OF assms(2), of ts pid]
  by (auto simp: execute_insert_or_ignore_def)

text \<open>What the loop does to a connection that has the table.\<close>

lemma store_loop_rows:
  assumes "current conn = Some rows"
  shows "\<exists>added. current (fst (store_loop pid cs conn n)) = Some (rows @ added)
    \<and> committed (fst (store_loop pid cs conn n)) = committed conn
    \<and> (distinct (map primary_key rows) \<longrightarrow> distinct (map primary_key (rows @ added)))
    \<and> (\<forall>r \<in> set added. primary_key r \<notin> set (map primary_key rows))"
  using assms
proof (induction cs arbitrary: conn rows n)
  case Nil
  then show ?case by simp
next
  case (Cons c cs)
  show ?case
  proof (cases "fromtimestamp_utc (candle_time c)")
    case (Inl e)
    with Cons.prems show ?thesis by simp
  next
    case (Inr d)
    show ?thesis
    proof (cases "execute_insert_or_ignore (isoformat_utc d) pid c conn")
      case (Inl ex)
      show ?thesis
      proof (cases ex)
        case (Sqlite3_Error err)
        with Inl Inr Cons.IH [OF Cons.prems, of n] show ?thesis by simp
      next
        case (Other_Error e)
        with Inl Inr Cons.prems show ?thesis by simp
      qed
    next
      case ok: (Inr conn')
      from ok show ?thesis
      proof (cases rule: execute_cases)
        case (1 rows')
        with Inr ok Cons.IH [OF Cons.prems, of "n + 1"] show ?thesis by simp
      next
        case (2 rows' r)
        with Cons.prems have rows': "rows' = rows" by simp
        from 2 rows' have cur: "current conn' = Some (rows @ [r])" by simp
        from Cons.IH [OF cur, of "n + 1"] obtain added where
          a: "current (fst (store_loop pid cs conn' (n + 1))) = Some ((rows @ [r]) @ added)"
          and b: "committed (fst (store_loop pid cs conn' (n + 1))) = committed conn'"
          and c: "distinct (map primary_key (rows @ [r])) \<longrightarrow>
                  distinct (map primary_key ((rows @ [r]) @ added))"
          and d: "\<forall>x \<in> set added. primary_key x \<notin> set (map primary_key (rows @ [r]))"
          by blast
        have "current (fst (store_loop pid (c # cs) conn n)) = Some (rows @ (r # added))"
          using Inr ok a by simp
        moreover have "committed (fst (store_loop pid (c # cs) conn n)) = committed conn"
          using Inr ok b 2 by simp
        moreover have "distinct (map primary_key rows) \<longrightarrow>
            distinct (map primary_key (rows @ (r # added)))"
          using c 2 rows' by simp
        moreover have "\<forall>x \<in> set (r # added). primary_key x \<notin> set (map primary_key rows)"
          using d 2 rows' by auto
        ultimately show ?thesis by blast
      qed
    qed
  qed
qed

text \<open>Without the table every insertion raises, and the loop changes nothing.\<close>

lemma store_loop_no_table:
  assumes "current conn = None"
  shows "fst (store_loop pid cs conn n) = conn"
  using assms
  by (induction cs arbitrary: n)
     (auto simp: execute_insert_or_ignore_def split: sum.splits exception.splits)

lemma store_loop_committed:
  "committed (fst (store_loop pid cs conn n)) = committed conn"
proof (cases "current conn")
  case None
  then show ?thesis by (simp add: store_loop_no_table)
next
  case (Some rows)
  from store_loop_rows [OF this] show ?thesis by blast
qed

lemma store_data_current:
  "current (fst (store_data conn pid cs)) = current (fst (store_loop pid cs conn 0))"
  by (simp add: store_data_def commit_def split: prod.splits sum.splits)

lemma store_data_committed:
  "committed (fst (store_data conn pid cs)) = committed conn
   \<or> committed (fst (store_data conn pid cs)) = current (fst (store_loop pid cs conn 0))"
  using store_loop_committed [of pid cs conn 0]
  by (auto simp add: store_data_def commit_def split: prod.splits sum.splits)

lemma store_data_unique:
  assumes "unique_keys (current conn)" and "unique_keys (committed conn)"
  shows "unique_keys (current (fst (store_data conn pid cs)))
    \<and> unique_keys (committed (fst (store_data conn pid cs)))"
proof -
  from assms(1) obtain rows where cur: "current conn = Some rows"
    and d: "distinct (map primary_key rows)"
    by (auto simp: unique_keys_def split: option.splits)
  from store_loop_rows [OF cur, of pid cs 0] d
  have "unique_keys (current (fst (store_loop pid cs conn 0)))"
    by (auto simp: unique_keys_def)
  then show ?thesis
    using store_data_committed [of conn pid cs] assms(2) by (auto simp: store_data_current)
qed

lemma store_calls_unique:
  assumes "unique_keys (current conn)" and "unique_keys (committed conn)"
  shows "unique_keys (current (store_calls calls conn))
    \<and> unique_keys (committed (store_calls calls conn))"
  using assms
proof (induction calls arbitrary: conn)
  case Nil
  then show ?case by simp
next
  case (Cons call calls)
  obtain pid cs where call: "call = (pid, cs)" by (cases call)
  from store_data_unique [OF Cons.prems, of pid cs] Cons.IH [of "fst (store_data conn pid cs)"]
  show ?case by (simp add: call)
qed

lemma init_db_unique:
  assumes "reset \<or> file = None"
  shows "init_db reset file = \<lparr>committed = Some [], current = Some []\<rparr>"
  using assms
  by (auto simp: init_db_def drop_table_if_exists_def create_table_if_not_exists_def commit_def
      Let_def)

lemma distinct_count:
  "distinct (map f xs) \<Longrightarrow> length (filter (\<lambda>x. f x = k) xs) \<le> 1"
proof (induction xs)
  case Nil
  then show ?case by simp
next
  case (Cons x xs)
  show ?case
  proof (cases "f x = k")
    case True
    from Cons.prems have "f x \<notin> f ` set xs" by simp
    with True have "\<forall>y \<in> set xs. f y \<noteq> k" by blast
    then have "filter (\<lambda>x. f x = k) xs = []"
      by (simp add: filter_empty_conv)
    with True show ?thesis by simp
  next
    case False
    with Cons show ?thesis by simp
  qed
qed

text \<open>
  A connection that holds every key the loop would add takes the same candles without a
  change, with the same count or the same exception.
\<close>

lemma store_loop_table:
  "(current (fst (store_loop pid cs conn n)) = None) = (current conn = None)"
proof (cases "current conn")
  case None
  then show ?thesis by (simp add: store_loop_no_table)
next
  case (Some rows)
  from store_loop_rows [OF this, of pid cs n] Some show ?thesis by auto
qed

lemma store_loop_keys_mono:
  "set (map primary_key (table_rows (current conn)))
   \<subseteq> set (map primary_key (table_rows (current (fst (store_loop pid cs conn n)))))"
proof (cases "current conn")
  case None
  then show ?thesis by (simp add: store_loop_no_table)
next
  case (Some rows)
  from store_loop_rows [OF this, of pid cs n] Some show ?thesis
    by (auto simp: table_rows_def)
qed

lemma store_loop_absorb:
  assumes "store_loop pid cs conn n = (conn1, out)"
    and "set (map primary_key (table_rows (current conn1)))
         \<subseteq> set (map primary_key (table_rows (current X)))"
    and "(current conn = None) = (current X = None)"
  shows "store_loop pid cs X n = (X, out)"
  using assms
proof (induction cs arbitrary: conn n)
  case Nil
  then show ?case by simp
next
  case (Cons c cs)
  show ?case
  proof (cases "fromtimestamp_utc (candle_time c)")
    case (Inl e)
    with Cons.prems show ?thesis by simp
  next
    case (Inr d)
    let ?ts = "isoformat_utc d"
    show ?thesis
    proof (cases "execute_insert_or_ignore ?ts pid c conn")
      case (Inl ex)
      show ?thesis
      proof (cases ex)
        case (Sqlite3_Error err)
        with Inl have "current conn = None \<or> candle_binding c = Caught"
          using execute_caught_iff by blast
        with Cons.prems(3) have "current X = None \<or> candle_binding c = Caught" by simp
        then obtain err' where "execute_insert_or_ignore ?ts pid c X = Inl (Sqlite3_Error err')"
          using execute_caught_iff by blast
        moreover from Cons.prems(1) Inr Inl Sqlite3_Error
        have "store_loop pid cs conn n = (conn1, out)" by simp
        note Cons.IH [OF this Cons.prems(2,3)]
        ultimately show ?thesis using Inr by simp
      next
        case (Other_Error e)
        with Inl have "current conn \<noteq> None" and "bind_values c = Inl (Other_Error e)"
          using execute_uncaught_iff by blast+
        with Cons.prems(3) have "execute_insert_or_ignore ?ts pid c X = Inl (Other_Error e)"
          using execute_uncaught_iff by blast
        moreover from Cons.prems(1) Inr Inl Other_Error have "conn1 = conn" "out = Inl e"
          by simp_all
        ultimately show ?thesis using Inr by simp
      qed
    next
      case ok: (Inr conn')
      from Cons.prems(1) Inr ok have run: "store_loop pid cs conn' (n + 1) = (conn1, out)"
        by simp
      from ok have key: "(?ts, pid) \<in> set (map primary_key (table_rows (current conn')))"
        and tab: "current conn' \<noteq> None" and tab0: "current conn \<noteq> None"
        and bind: "candle_binding c = Bound"
        by (cases rule: execute_cases; simp add: table_rows_def)+
      from store_loop_keys_mono [of conn' pid cs "n + 1"] run key Cons.prems(2)
      have "(?ts, pid) \<in> set (map primary_key (table_rows (current X)))"
        by auto
      moreover from tab0 Cons.prems(3) obtain rowsX where "current X = Some rowsX" by auto
      ultimately have "execute_insert_or_ignore ?ts pid c X = Inr X"
        using bind execute_stored by (simp add: table_rows_def)
      moreover from tab tab0 Cons.prems(3) have "(current conn' = None) = (current X = None)"
        by auto
      note Cons.IH [OF run Cons.prems(2) this]
      ultimately show ?thesis using Inr by simp
    qed
  qed
qed

text \<open>The loop over a list in two parts, and its count.\<close>

lemma store_loop_append:
  "store_loop pid (xs @ ys) conn n =
     (case store_loop pid xs conn n of
        (conn', Inl e) \<Rightarrow> (conn', Inl e)
      | (conn', Inr k) \<Rightarrow> store_loop pid ys conn' k)"
  by (induction xs arbitrary: conn n) (auto split: sum.splits exception.splits)

lemma store_loop_returns:
  assumes "list_all goes_on cs"
  shows "\<exists>k. snd (store_loop pid cs conn n) = Inr k"
  using assms
proof (induction cs arbitrary: conn n)
  case Nil
  then show ?case by simp
next
  case (Cons c cs)
  from Cons.prems have "goes_on c" and rest: "list_all goes_on cs"
    by simp_all
  then have ok: "timestamp_ok c" and bind: "candle_binding c \<noteq> Uncaught"
    by (simp_all add: goes_on_def)
  from ok obtain d where d: "fromtimestamp_utc (candle_time c) = Inr d"
    by (auto simp: timestamp_ok_def split: sum.splits)
  show ?case
  proof (cases "execute_insert_or_ignore (isoformat_utc d) pid c conn")
    case (Inl ex)
    show ?thesis
    proof (cases ex)
      case (Sqlite3_Error err)
      with Inl d Cons.IH [OF rest, of conn n] show ?thesis by simp
    next
      case (Other_Error e)
      with Inl have "bind_values c = Inl (Other_Error e)"
        using execute_uncaught_iff by blast
      with bind show ?thesis by (simp add: candle_binding_def)
    qed
  next
    case (Inr conn')
    with d Cons.IH [OF rest, of conn' "n + 1"] show ?thesis by simp
  qed
qed

lemma store_loop_count:
  assumes "current conn = Some rows" and "list_all goes_on cs"
  shows "\<exists>conn' added.
      store_loop pid cs conn n = (conn', Inr (n + length (filter inserts cs)))
    \<and> current conn' = Some (rows @ added)
    \<and> length added \<le> length (filter inserts cs)
    \<and> ((\<exists>c \<in> set cs. inserts c \<and> already_stored rows pid c) \<longrightarrow>
        length added < length (filter inserts cs))"
  using assms
proof (induction cs arbitrary: conn rows n)
  case Nil
  then show ?case by simp
next
  case (Cons c cs)
  from Cons.prems(2) have "goes_on c" and rest: "list_all goes_on cs"
    by simp_all
  then have ok: "timestamp_ok c" and bind: "candle_binding c \<noteq> Uncaught"
    by (simp_all add: goes_on_def)
  from ok obtain d where d: "fromtimestamp_utc (candle_time c) = Inr d"
    by (auto simp: timestamp_ok_def split: sum.splits)
  let ?ts = "isoformat_utc d"
  have stored: "already_stored rs pid c = ((?ts, pid) \<in> set (map primary_key rs))"
    for rs
    by (simp add: already_stored_def candle_key_def d)
  show ?case
  proof (cases "inserts c")
    case False
    with bind have "candle_binding c = Caught"
      by (cases "candle_binding c") (simp_all add: inserts_def)
    then obtain err where "execute_insert_or_ignore ?ts pid c conn = Inl (Sqlite3_Error err)"
      using execute_caught_iff by blast
    with d have "store_loop pid (c # cs) conn n = store_loop pid cs conn n" by simp
    with Cons.IH [OF Cons.prems(1) rest, of n] False show ?thesis by auto
  next
    case True
    then have bound: "candle_binding c = Bound" by (simp add: inserts_def)
    show ?thesis
    proof (cases "(?ts, pid) \<in> set (map primary_key rows)")
      case dup: True
      from execute_stored [OF Cons.prems(1) bound dup] d
      have "store_loop pid (c # cs) conn n = store_loop pid cs conn (n + 1)" by simp
      with Cons.IH [OF Cons.prems(1) rest, of "n + 1"] True show ?thesis by auto
    next
      case new: False
      from bound_bind_parameters [OF bound, of ?ts pid] obtain r
        where r: "bind_parameters ?ts pid c = Inr r" and key: "primary_key r = (?ts, pid)"
        by blast
      let ?conn = "conn\<lparr>current := Some (rows @ [r])\<rparr>"
      from new r key have "execute_insert_or_ignore ?ts pid c conn = Inr ?conn"
        using Cons.prems(1) by (simp add: execute_insert_or_ignore_def)
      with d have step: "store_loop pid (c # cs) conn n = store_loop pid cs ?conn (n + 1)"
        by simp
      have cur: "current ?conn = Some (rows @ [r])" by simp
      from Cons.IH [OF cur rest, of "n + 1"] obtain conn' added where
        a: "store_loop pid cs ?conn (n + 1)
            = (conn', Inr (n + 1 + length (filter inserts cs)))"
        and b: "current conn' = Some ((rows @ [r]) @ added)"
        and c: "length added \<le> length (filter inserts cs)"
        and e: "(\<exists>c \<in> set cs. inserts c \<and> already_stored (rows @ [r]) pid c) \<longrightarrow>
            length added < length (filter inserts cs)"
        by blast
      have mono: "already_stored rows pid x \<Longrightarrow> already_stored (rows @ [r]) pid x" for x
        by (auto simp: already_stored_def split: option.splits)
      have "store_loop pid (c # cs) conn n
          = (conn', Inr (n + length (filter inserts (c # cs))))"
        using step a True by simp
      moreover have "current conn' = Some (rows @ (r # added))" using b by simp
      moreover have "length (r # added) \<le> length (filter inserts (c # cs))"
        using c True by simp
      moreover have "(\<exists>x \<in> set (c # cs). inserts x \<and> already_stored rows pid x) \<longrightarrow>
          length (r # added) < length (filter inserts (c # cs))"
        using e mono new stored True by auto
      ultimately show ?thesis by blast
    qed
  qed
qed

lemma bind_value_uncaught: "bind_value v = Inl (Other_Error e) \<Longrightarrow> e = OverflowError"
  by (cases v) (simp_all split: if_splits)

lemma bind_values_uncaught: "bind_values c = Inl (Other_Error e) \<Longrightarrow> e = OverflowError"
  by (auto simp: bind_values_def split: sum.splits dest: bind_value_uncaught)

subsection \<open>One row for each key\<close>

text \<open>
  Claim C1. After \<open>init_db\<close> has created the table (the file had none, or \<open>reset\<close>
  dropped it), and after any sequence of calls of \<open>store_data\<close> with any product ids and
  any lists of candles, the connection has the table, and the table has at most one row
  with a given \<open>(timestamp, product_id)\<close>, both as the connection sees it and as it is
  committed.
\<close>

theorem one_row_per_key:
  assumes "reset \<or> file = None"
  shows "current (store_calls calls (init_db reset file)) \<noteq> None
    \<and> length (filter (\<lambda>r. primary_key r = (ts, pid))
          (table_rows (current (store_calls calls (init_db reset file))))) \<le> 1
    \<and> length (filter (\<lambda>r. primary_key r = (ts, pid))
          (table_rows (committed (store_calls calls (init_db reset file))))) \<le> 1"
proof -
  have "unique_keys (current (init_db reset file))" "unique_keys (committed (init_db reset file))"
    by (simp_all add: init_db_unique [OF assms] unique_keys_def)
  from store_calls_unique [OF this, of calls]
  obtain rows rows' where "current (store_calls calls (init_db reset file)) = Some rows"
    and "distinct (map primary_key rows)"
    and "committed (store_calls calls (init_db reset file)) = Some rows'"
    and "distinct (map primary_key rows')"
    by (auto simp: unique_keys_def split: option.splits)
  then show ?thesis
    using distinct_count [of primary_key rows "(ts, pid)"]
      distinct_count [of primary_key rows' "(ts, pid)"]
    by (simp add: table_rows_def)
qed

text \<open>
  The theorem with \<open>reset\<close>, on a file whose table had the same row twice, after the three
  sample calls: three rows, one of them with the key of the first candle of BTC-USD.
\<close>

text \<open>
  The theorem with \<open>reset\<close>, on a file whose table had the same row twice, after the three
  sample calls: three rows, one of them with the key of the first candle of BTC-USD.
\<close>

theorem one_row_per_key_witness:
  "table_rows (current (store_calls sample_calls (init_db True (Some [sample_row, sample_row]))))
     = [sample_row, later_row, other_row]
   \<and> length (filter (\<lambda>r. primary_key r = (''2025-11-17T00:00:00+00:00'', ''BTC-USD''))
        (table_rows (current
          (store_calls sample_calls (init_db True (Some [sample_row, sample_row])))))) \<le> 1"
proof -
  have "table_rows (current
      (store_calls sample_calls (init_db True (Some [sample_row, sample_row]))))
     = [sample_row, later_row, other_row]"
    by code_simp
  with one_row_per_key [of True "Some [sample_row, sample_row]" sample_calls
      "''2025-11-17T00:00:00+00:00''" "''BTC-USD''"]
  show ?thesis by simp
qed

subsection \<open>Idempotence\<close>

text \<open>
  Claim C2. For every state of the connection, every product id and every list of candles,
  a second call of \<open>store_data\<close> with the same product id and candles leaves the connection,
  and so the table, as the first call left it, and ends as the first did (with the same
  count, or with the same exception).
\<close>

theorem store_data_idempotent:
  "store_data (fst (store_data conn pid candles)) pid candles = store_data conn pid candles"
proof -
  obtain conn1 out where run: "store_loop pid candles conn 0 = (conn1, out)"
    by (cases "store_loop pid candles conn 0")
  from store_loop_table [of pid candles conn 0] run
  have tab: "(current conn = None) = (current conn1 = None)" by simp
  show ?thesis
  proof (cases out)
    case (Inl e)
    from store_loop_absorb [OF run _ tab] have "store_loop pid candles conn1 0 = (conn1, out)"
      by simp
    with run Inl show ?thesis by (simp add: store_data_def)
  next
    case (Inr k)
    from tab have "(current conn = None) = (current (commit conn1) = None)"
      by (simp add: commit_def)
    from store_loop_absorb [OF run _ this]
    have "store_loop pid candles (commit conn1) 0 = (commit conn1, out)"
      by (simp add: commit_def)
    with run Inr show ?thesis by (simp add: store_data_def commit_def)
  qed
qed

subsection \<open>An insertion that raises\<close>

text \<open>
  Claim C6. Let the loop of \<open>store_data\<close> reach a candle \<open>c\<close> in the state \<open>conn1\<close> with
  the count \<open>n\<close>, and let the insertion of \<open>c\<close> raise an \<open>sqlite3.Error\<close>. Then the loop
  goes on with the remaining candles from the same state and count; the whole call does
  what it does for the list without \<open>c\<close>; and when none of the remaining candles raises an
  exception that is not caught (their times are valid, and no integer too large for SQLite
  is bound), the call returns, with the result of the loop over them committed.
\<close>

theorem failing_insert_is_skipped:
  assumes "store_loop pid before conn 0 = (conn1, Inr n)"
    and "fromtimestamp_utc (candle_time c) = Inr d"
    and "execute_insert_or_ignore (isoformat_utc d) pid c conn1 = Inl (Sqlite3_Error err)"
  shows "store_loop pid (c # rest) conn1 n = store_loop pid rest conn1 n
    \<and> store_data conn pid (before @ c # rest) = store_data conn pid (before @ rest)
    \<and> (list_all goes_on rest \<longrightarrow>
        (\<exists>conn' count. store_loop pid rest conn1 n = (conn', Inr count)
          \<and> store_data conn pid (before @ c # rest) = (commit conn', Inr count)
          \<and> committed (commit conn') = current conn'))"
proof -
  have step: "store_loop pid (c # rest) conn1 n = store_loop pid rest conn1 n"
    using assms(2,3) by simp
  have app: "store_loop pid (before @ c # rest) conn 0 = store_loop pid rest conn1 n"
    using assms(1) step by (simp add: store_loop_append)
  have app': "store_loop pid (before @ rest) conn 0 = store_loop pid rest conn1 n"
    using assms(1) by (simp add: store_loop_append)
  have eq: "store_data conn pid (before @ c # rest) = store_data conn pid (before @ rest)"
    by (simp add: store_data_def app app')
  have "\<exists>conn' count. store_loop pid rest conn1 n = (conn', Inr count)
          \<and> store_data conn pid (before @ c # rest) = (commit conn', Inr count)
          \<and> committed (commit conn') = current conn'"
    if "list_all goes_on rest"
  proof -
    from store_loop_returns [OF that, of pid conn1 n] obtain conn' k
      where "store_loop pid rest conn1 n = (conn', Inr k)"
      by (cases "store_loop pid rest conn1 n") auto
    then show ?thesis by (simp add: store_data_def app commit_def)
  qed
  with step eq show ?thesis by blast
qed

text \<open>
  The theorem for a candle whose \<open>low\<close> is a list, between two candles that are stored:
  the call stores and commits the two, and counts 2.
\<close>

theorem failing_insert_is_skipped_witness:
  "execute_insert_or_ignore ''2025-11-17T00:00:00+00:00'' ''BTC-USD'' unbindable_candle
      \<lparr>committed = Some [], current = Some [sample_row]\<rparr> = Inl (Sqlite3_Error ProgrammingError)
   \<and> list_all goes_on [later_candle]
   \<and> store_data (init_db True None) ''BTC-USD'' [sample_candle, unbindable_candle, later_candle]
      = store_data (init_db True None) ''BTC-USD'' [sample_candle, later_candle]
   \<and> store_data (init_db True None) ''BTC-USD'' [sample_candle, unbindable_candle, later_candle]
      = (\<lparr>committed = Some [sample_row, later_row], current = Some [sample_row, later_row]\<rparr>,
         Inr 2)"
proof -
  have before: "store_loop ''BTC-USD'' [sample_candle] (init_db True None) 0
      = (\<lparr>committed = Some [], current = Some [sample_row]\<rparr>, Inr 1)"
    by code_simp
  have ts: "fromtimestamp_utc (candle_time unbindable_candle) = Inr 63898934400000000"
    by code_simp
  have iso: "isoformat_utc 63898934400000000 = ''2025-11-17T00:00:00+00:00''"
    by code_simp
  have raises: "execute_insert_or_ignore ''2025-11-17T00:00:00+00:00'' ''BTC-USD''
      unbindable_candle \<lparr>committed = Some [], current = Some [sample_row]\<rparr>
      = Inl (Sqlite3_Error ProgrammingError)"
    by code_simp
  have rest: "list_all goes_on [later_candle]"
    by code_simp
  have run: "store_data (init_db True None) ''BTC-USD''
      [sample_candle, unbindable_candle, later_candle]
      = (\<lparr>committed = Some [sample_row, later_row], current = Some [sample_row, later_row]\<rparr>,
         Inr 2)"
    by code_simp
  note skip = failing_insert_is_skipped [OF before ts raises [folded iso], of "[later_candle]",
      THEN conjunct2, THEN conjunct1, unfolded append.simps]
  show ?thesis
    by (rule conjI [OF raises conjI [OF rest conjI [OF skip run]]])
qed

subsection \<open>A key that is stored already\<close>

text \<open>
  Claim C8. When the loop of \<open>store_data\<close> comes to a candle whose key is in the table, the
  connection is left as it is in every case: the statement is ignored and the loop goes on
  (the candle is counted), or binding raises an \<open>sqlite3.Error\<close> and the loop goes on, or
  binding raises \<open>OverflowError\<close> and the call ends. After a call with such a candle
  anywhere in its list, the table is the old rows, unchanged and in their places, followed
  by added rows, and the rows under that key are the ones it had before: the values of the
  new candle are dropped.
\<close>

theorem stored_key_wins:
  assumes "current conn = Some rows"
    and "candle_key pid c = Some k"
    and "k \<in> set (map primary_key rows)"
  shows "store_loop pid (c # rest) conn count =
      (case candle_binding c of
         Bound \<Rightarrow> store_loop pid rest conn (count + 1)
       | Caught \<Rightarrow> store_loop pid rest conn count
       | Uncaught \<Rightarrow> (conn, Inl OverflowError))
    \<and> (\<exists>added. current (fst (store_data conn pid (before @ c # rest))) = Some (rows @ added)
          \<and> filter (\<lambda>r. primary_key r = k) (rows @ added)
              = filter (\<lambda>r. primary_key r = k) rows)"
proof -
  from assms(2) obtain d where d: "fromtimestamp_utc (candle_time c) = Inr d"
    and k: "k = (isoformat_utc d, pid)"
    by (auto simp: candle_key_def split: sum.splits)
  have "store_loop pid (c # rest) conn count =
      (case candle_binding c of
         Bound \<Rightarrow> store_loop pid rest conn (count + 1)
       | Caught \<Rightarrow> store_loop pid rest conn count
       | Uncaught \<Rightarrow> (conn, Inl OverflowError))"
  proof (cases "candle_binding c")
    case Bound
    from execute_stored [OF assms(1) Bound assms(3) [unfolded k]] d Bound
    show ?thesis by simp
  next
    case Caught
    then obtain err where
      "execute_insert_or_ignore (isoformat_utc d) pid c conn = Inl (Sqlite3_Error err)"
      using execute_caught_iff by blast
    with d Caught show ?thesis by simp
  next
    case Uncaught
    then obtain e where "bind_values c = Inl (Other_Error e)"
      by (auto simp: candle_binding_def split: sum.splits exception.splits)
    moreover from this have "e = OverflowError" by (rule bind_values_uncaught)
    ultimately have
      "execute_insert_or_ignore (isoformat_utc d) pid c conn = Inl (Other_Error OverflowError)"
      using assms(1) execute_uncaught_iff by blast
    with d Uncaught show ?thesis by simp
  qed
  moreover from store_loop_rows [OF assms(1), of pid "before @ c # rest" 0]
  obtain added where cur: "current (fst (store_loop pid (before @ c # rest) conn 0))
        = Some (rows @ added)"
    and new: "\<forall>r \<in> set added. primary_key r \<notin> set (map primary_key rows)"
    by blast
  from new assms(3) have "filter (\<lambda>r. primary_key r = k) added = []"
    by (auto simp: filter_empty_conv)
  with cur have "current (fst (store_data conn pid (before @ c # rest))) = Some (rows @ added)
      \<and> filter (\<lambda>r. primary_key r = k) (rows @ added) = filter (\<lambda>r. primary_key r = k) rows"
    by (simp add: store_data_current)
  ultimately show ?thesis by blast
qed

text \<open>
  The theorem for a candle at the time of the stored row, with other values: the stored row
  stays, the candle is counted. For the candle whose \<open>volume\<close> is \<open>2 ^ 63\<close> the call ends
  with \<open>OverflowError\<close>, and the stored row stays as well.
\<close>

theorem stored_key_wins_witness:
  "candle_key ''BTC-USD'' revised_candle = Some (''2025-11-17T00:00:00+00:00'', ''BTC-USD'')
   \<and> store_loop ''BTC-USD'' [revised_candle, later_candle] sample_conn 0
      = store_loop ''BTC-USD'' [later_candle] sample_conn 1
   \<and> store_data sample_conn ''BTC-USD'' [revised_candle, later_candle]
      = (\<lparr>committed = Some [sample_row, later_row], current = Some [sample_row, later_row]\<rparr>,
         Inr 2)
   \<and> store_loop ''BTC-USD'' [overflowing_candle, later_candle] sample_conn 0
      = (sample_conn, Inl OverflowError)"
proof -
  have cur: "current sample_conn = Some [sample_row]"
    by (simp add: sample_conn_def)
  have key: "candle_key ''BTC-USD'' revised_candle
      = Some (''2025-11-17T00:00:00+00:00'', ''BTC-USD'')"
    by code_simp
  have key': "candle_key ''BTC-USD'' overflowing_candle
      = Some (''2025-11-17T00:00:00+00:00'', ''BTC-USD'')"
    by code_simp
  have mem: "(''2025-11-17T00:00:00+00:00'', ''BTC-USD'') \<in> set (map primary_key [sample_row])"
    by code_simp
  have bind: "candle_binding revised_candle = Bound"
    by code_simp
  have bind': "candle_binding overflowing_candle = Uncaught"
    by code_simp
  have run: "store_data sample_conn ''BTC-USD'' [revised_candle, later_candle]
      = (\<lparr>committed = Some [sample_row, later_row], current = Some [sample_row, later_row]\<rparr>,
         Inr 2)"
    by code_simp
  from stored_key_wins [OF cur key mem, of "[later_candle]" 0, THEN conjunct1] bind
  have one: "store_loop ''BTC-USD'' [revised_candle, later_candle] sample_conn 0
      = store_loop ''BTC-USD'' [later_candle] sample_conn 1"
    by simp
  from stored_key_wins [OF cur key' mem, of "[later_candle]" 0, THEN conjunct1] bind'
  have two: "store_loop ''BTC-USD'' [overflowing_candle, later_candle] sample_conn 0
      = (sample_conn, Inl OverflowError)"
    by simp
  from key one run two show ?thesis by simp
qed

subsection \<open>The count that is reported\<close>

text \<open>
  Claim C9, amended. On a connection that has the table, for a list of candles none of
  which raises an exception that is not caught (so that the call returns and reports a
  count), \<open>store_data\<close> reports the number of candles whose insertion did not raise,
  ignored duplicates included. The rows added are at most as many; they are strictly fewer
  when the list has a candle whose key was stored before the call and whose insertion does
  not raise.
\<close>

theorem reported_count:
  assumes "current conn = Some rows" and "list_all goes_on candles"
  shows "\<exists>conn' added.
      store_data conn pid candles = (conn', Inr (length (filter inserts candles)))
    \<and> current conn' = Some (rows @ added)
    \<and> length added \<le> length (filter inserts candles)
    \<and> ((\<exists>c \<in> set candles. inserts c \<and> already_stored rows pid c) \<longrightarrow>
        length added < length (filter inserts candles))"
proof -
  from store_loop_count [OF assms, of pid 0] obtain conn' added where
    "store_loop pid candles conn 0 = (conn', Inr (length (filter inserts candles)))"
    and "current conn' = Some (rows @ added)"
    and "length added \<le> length (filter inserts candles)"
    and "(\<exists>c \<in> set candles. inserts c \<and> already_stored rows pid c) \<longrightarrow>
        length added < length (filter inserts candles)"
    by auto
  then have "store_data conn pid candles
        = (commit conn', Inr (length (filter inserts candles)))
    \<and> current (commit conn') = Some (rows @ added)
    \<and> length added \<le> length (filter inserts candles)
    \<and> ((\<exists>c \<in> set candles. inserts c \<and> already_stored rows pid c) \<longrightarrow>
        length added < length (filter inserts candles))"
    by (simp add: store_data_def commit_def)
  then show ?thesis by blast
qed

text \<open>
  The theorem for a list of a candle with a stored key and a new candle: the count is 2,
  one row is added.
\<close>

theorem reported_count_witness:
  "list_all goes_on [revised_candle, later_candle]
   \<and> inserts revised_candle \<and> already_stored [sample_row] ''BTC-USD'' revised_candle
   \<and> store_data sample_conn ''BTC-USD'' [revised_candle, later_candle]
      = (\<lparr>committed = Some ([sample_row] @ [later_row]),
          current = Some ([sample_row] @ [later_row])\<rparr>,
         Inr (length (filter inserts [revised_candle, later_candle])))
   \<and> length [later_row] < length (filter inserts [revised_candle, later_candle])"
proof -
  have cur: "current sample_conn = Some [sample_row]"
    by (simp add: sample_conn_def)
  have ok: "list_all goes_on [revised_candle, later_candle]"
    by code_simp
  have dup: "inserts revised_candle \<and> already_stored [sample_row] ''BTC-USD'' revised_candle"
    by code_simp
  have run: "store_data sample_conn ''BTC-USD'' [revised_candle, later_candle]
      = (\<lparr>committed = Some ([sample_row] @ [later_row]),
          current = Some ([sample_row] @ [later_row])\<rparr>,
         Inr (length (filter inserts [revised_candle, later_candle])))"
    by code_simp
  have cnt: "length [later_row] < length (filter inserts [revised_candle, later_candle])"
    by code_simp
  from reported_count [OF cur ok, of "''BTC-USD''"] ok dup run cnt
  show ?thesis by simp
qed

text \<open>
  Claim C9 as it is stated fails when the candle with the stored key is one whose insertion
  raises: for the list of the one candle whose \<open>low\<close> is a list, at the key of the stored
  row, the count reported is 0 and no row is added, so the count is not greater than the
  number of rows added.
\<close>

theorem reported_count_counterexample:
  "current sample_conn = Some [sample_row]
   \<and> already_stored [sample_row] ''BTC-USD'' unbindable_candle
   \<and> store_data sample_conn ''BTC-USD'' [unbindable_candle] = (sample_conn, Inr 0)
   \<and> (case store_data sample_conn ''BTC-USD'' [unbindable_candle] of
        (conn', Inl e) \<Rightarrow> False
      | (conn', Inr count) \<Rightarrow>
          \<not> length (table_rows (current conn')) - length (table_rows (current sample_conn))
              < count)"
  by code_simp

section \<open>Properties of the aggregator\<close>




text \<open>The rows of the result: one for each group, sorted by hour bucket.\<close>

lemma select_group_key [simp]:
  "(agg_product_id (select_group rows k), hour_bucket (select_group rows k)) = k"
  by (simp add: select_group_def)









subsection \<open>The hourly summaries\<close>






end
